theory Spec2Isabelle
  imports Complex_Main
begin

section \<open>The client-side security monitor of static/security.js\<close>

text \<open>
  The monitor is the object \<^verbatim>\<open>SecurityMonitor\<close>: a \<^verbatim>\<open>config\<close> object, a \<^verbatim>\<open>state\<close>
  object, and functions that run as callbacks of the browser's event loop. Each callback
  runs to completion, so a callback is a function from the page before it to the page
  after it. Everything a callback does to the outside (DOM writes, network requests,
  media and navigation calls) is appended, in program order, to a trace.

  Not modelled: console output; the \<^verbatim>\<open>timers\<close> object (never read or written); the pixel
  loop that computes the luminance statistics in floating point (the sampling callback
  takes the two numbers it leaves in \<^verbatim>\<open>mean\<close> and \<^verbatim>\<open>variance\<close>; both are finite doubles,
  hence rationals, and the comparisons made on them are exact).
\<close>

subsection \<open>Data\<close>

type_synonym stream = nat

datatype jval = JNull | JStr string

text \<open>The body of a request: the object passed to \<^verbatim>\<open>JSON.stringify\<close>, field by field.\<close>

type_synonym json = "(string \<times> jval) list"

text \<open>Callbacks handed to \<^verbatim>\<open>setInterval\<close> and \<^verbatim>\<open>setTimeout\<close>; promises awaiting settlement.\<close>

datatype callback = IdleCheck | OcclusionCheck stream | Redirect

datatype promise = CameraRequest | DestroyFetch

datatype effect =
    SetBodyBorder string
  | StopTracks stream
  | LockdownUI string
  | SendBeacon "string option" json
  | Fetch "string option" "(string \<times> string option) list" json bool
  | PreventDefault
  | GetUserMedia
  | PlayVideo stream
  | DrawImage stream
  | SetCamView string string
  | LocationReplace "string option"

text \<open>
  \<open>LockdownUI reason\<close> is the assignment of the fixed lockdown markup, with \<open>reason\<close>
  spliced in, to \<^verbatim>\<open>document.body.innerHTML\<close>. \<open>Fetch url headers body keepalive\<close> is a
  POST request. A URL is \<open>None\<close> while the configuration still holds \<^verbatim>\<open>null\<close>.
\<close>

record config =
  fileId :: "string option"
  destroyUrl :: "string option"
  homeUrl :: "string option"
  alertUrl :: string
  idleTimeout :: int
  occlusionThreshold :: int
  disableIdle :: bool
  isVerificationPage :: bool

record state =
  destroyed :: bool
  cameraStream :: "stream option"
  lastActivity :: int
  occlusionStart :: "int option"
  verified :: bool
  monitoringActive :: bool
  submitting :: bool
  cameraAccessFailed :: bool

text \<open>
  The page: the monitor's two objects, what the browser holds for it (whether
  \<^verbatim>\<open>navigator.sendBeacon\<close> exists, the content of the csrf-token meta tag, whether the element
  \<^verbatim>\<open>camView\<close> is in the document, whether the listeners are bound, the registered
  intervals and timeouts with their periods, the promises not yet settled) and the trace.
\<close>

record page =
  config :: config
  state :: state
  sendBeacon :: bool
  csrfMeta :: "string option"
  camView :: bool
  listening :: bool
  intervals :: "(callback \<times> nat) list"
  timeouts :: "(callback \<times> nat) list"
  pending :: "promise list"
  trace :: "effect list"

record key_event =
  key :: string
  ctrlKey :: bool
  shiftKey :: bool
  metaKey :: bool

text \<open>
  What the event loop can deliver. An event carries the values its callback reads from
  the environment: the event object's fields, and each reading of \<^verbatim>\<open>Date.now()\<close>.
  \<open>OcclusionTick v mean variance t0 t\<close> is one run of the sampling callback on the video of
  stream \<open>v\<close>: \<open>t0\<close> is the clock reading stored as the start of a run, \<open>t\<close> the reading the
  duration is computed from. \<open>StartCamera\<close> is a call of \<^verbatim>\<open>initCamera\<close> from outside this
  file (the verification page's own start control).
\<close>

datatype event =
    Submit
  | SubmitButtonClick
  | VisibilityChange bool
  | Blur
  | KeyUp string
  | KeyDown key_event int
  | ContextMenu
  | SelectStart
  | MouseMove int
  | MouseDown int
  | Copy
  | Click string
  | BeforeUnload
  | IdleTick int
  | OcclusionTick stream real real int int
  | CameraGranted stream
  | CameraFailed string
  | DestroyFetchSettled bool
  | RedirectTimeout
  | StartCamera

subsection \<open>The object literal\<close>

text \<open>\<open>boot now sb csrf cv\<close>: the page once the script has been evaluated at time \<open>now\<close>.\<close>

definition boot :: "int \<Rightarrow> bool \<Rightarrow> string option \<Rightarrow> bool \<Rightarrow> page" where
  "boot now sb csrf cv =
     \<lparr> config = \<lparr> fileId = None, destroyUrl = None, homeUrl = None, alertUrl = ''/alert'',
                  idleTimeout = 6000, occlusionThreshold = 3000, disableIdle = False,
                  isVerificationPage = False \<rparr>,
       state = \<lparr> destroyed = False, cameraStream = None, lastActivity = now,
                 occlusionStart = None, verified = False, monitoringActive = False,
                 submitting = False, cameraAccessFailed = False \<rparr>,
       sendBeacon = sb, csrfMeta = csrf, camView = cv, listening = False,
       intervals = [], timeouts = [], pending = [], trace = [] \<rparr>"

subsection \<open>Helpers of the model\<close>

definition emit :: "effect list \<Rightarrow> page \<Rightarrow> page" where
  "emit es p = p\<lparr> trace := trace p @ es \<rparr>"

text \<open>The reasons of the lockdowns written so far, oldest first.\<close>

fun revocations :: "effect list \<Rightarrow> string list" where
  "revocations [] = []"
| "revocations (LockdownUI r # es) = r # revocations es"
| "revocations (_ # es) = revocations es"

text \<open>Decimal rendering of a number in a template literal; \<^verbatim>\<open>Math.round\<close>.\<close>

fun digits :: "nat \<Rightarrow> string" where
  "digits n = (if n < 10 then [char_of (48 + n)]
               else digits (n div 10) @ [char_of (48 + n mod 10)])"

declare digits.simps [simp del]

definition show_int :: "int \<Rightarrow> string" where
  "show_int i = (if i < 0 then CHR ''-'' # digits (nat (- i)) else digits (nat i))"

definition math_round :: "real \<Rightarrow> int" where
  "math_round x = \<lfloor>x + 1 / 2\<rfloor>"

subsection \<open>triggerDestruction and sendAlert\<close>

text \<open>
  Lines 82 to 115: what \<^verbatim>\<open>triggerDestruction\<close> does once past its guard. The lockdown
  replaces the content of the body, so the element \<^verbatim>\<open>camView\<close> is in the document no longer;
  the request it sends is pending until it settles.
\<close>

definition revocation :: "page \<Rightarrow> string \<Rightarrow> effect list" where
  "revocation p reason =
     [SetBodyBorder ''5px solid red'']
     @ (case cameraStream (state p) of None \<Rightarrow> [] | Some s \<Rightarrow> [StopTracks s])
     @ [LockdownUI reason]
     @ (if sendBeacon p then [SendBeacon (destroyUrl (config p)) [(''reason'', JStr reason)]]
        else [])
     @ [Fetch (destroyUrl (config p))
          [(''Content-Type'', Some ''application/json''), (''X-CSRFToken'', csrfMeta p)]
          [(''reason'', JStr reason)] True]"

definition triggerDestruction :: "string \<Rightarrow> page \<Rightarrow> page" where
  "triggerDestruction reason p =
     (if destroyed (state p) \<or> \<not> monitoringActive (state p) \<or> submitting (state p) then p
      else p\<lparr> state := (state p)\<lparr> destroyed := True \<rparr>,
              camView := False,
              pending := pending p @ [DestroyFetch],
              trace := trace p @ revocation p reason \<rparr>)"

definition sendAlert :: "string \<Rightarrow> string \<Rightarrow> page \<Rightarrow> page" where
  "sendAlert type reason p =
     (if destroyed (state p) then p
      else emit [Fetch (Some (alertUrl (config p)))
                   [(''Content-Type'', Some ''application/json''), (''X-CSRFToken'', csrfMeta p)]
                   [(''file_id'', (case fileId (config p) of None \<Rightarrow> JNull | Some f \<Rightarrow> JStr f)),
                    (''type'', JStr type), (''reason'', JStr reason)]
                   False] p)"

text \<open>
  The continuation of the revocation request: \<^verbatim>\<open>finally\<close> runs it when the promise settles,
  fulfilled or rejected, and it arms the redirect; the timeout then navigates.
\<close>

definition destroyFetchSettled :: "bool \<Rightarrow> page \<Rightarrow> page" where
  "destroyFetchSettled ok p = p\<lparr> timeouts := timeouts p @ [(Redirect, 2000)] \<rparr>"

definition redirect :: "page \<Rightarrow> page" where
  "redirect p = emit [LocationReplace (homeUrl (config p))] p"

subsection \<open>The listeners of bindEvents\<close>

definition resetIdle :: "int \<Rightarrow> page \<Rightarrow> page" where
  "resetIdle now p = p\<lparr> state := (state p)\<lparr> lastActivity := now \<rparr> \<rparr>"

definition setSubmitting :: "page \<Rightarrow> page" where
  "setSubmitting p = p\<lparr> state := (state p)\<lparr> submitting := True \<rparr> \<rparr>"

definition onVisibilityChange :: "bool \<Rightarrow> page \<Rightarrow> page" where
  "onVisibilityChange hidden p =
     (if hidden \<and> \<not> isVerificationPage (config p)
      then triggerDestruction ''Tab Switch / Minimize'' p else p)"

definition onBlur :: "page \<Rightarrow> page" where
  "onBlur p =
     (if \<not> isVerificationPage (config p) then triggerDestruction ''Window Focus Lost'' p else p)"

definition onKeyUp :: "string \<Rightarrow> page \<Rightarrow> page" where
  "onKeyUp k p =
     (if k = ''PrintScreen''
      then triggerDestruction ''Screenshot Attempt'' (sendAlert ''screenshot'' ''PrintScreen Key'' p)
      else p)"

text \<open>
  The four tests of the keydown listener run one after the other, so one key press can
  report more than one threat. \<^verbatim>\<open>e.key.toLowerCase() === 's'\<close> holds of the keys \<open>s\<close> and \<open>S\<close>.
\<close>

definition onKeyDown :: "key_event \<Rightarrow> int \<Rightarrow> page \<Rightarrow> page" where
  "onKeyDown e now p =
     (let p1 = (if key e = ''F12'' \<or> (ctrlKey e \<and> shiftKey e \<and> (key e = ''I'' \<or> key e = ''C''))
                then triggerDestruction ''DevTools Shortcut'' (emit [PreventDefault] p) else p);
          p2 = (if (ctrlKey e \<or> metaKey e) \<and> key e = ''p''
                then triggerDestruction ''Print Attempt'' (emit [PreventDefault] p1) else p1);
          p3 = (if (ctrlKey e \<or> metaKey e) \<and> key e = ''s''
                then triggerDestruction ''Save Attempt'' (emit [PreventDefault] p2) else p2);
          p4 = (if metaKey e \<and> shiftKey e \<and> (key e = ''s'' \<or> key e = ''S'')
                then triggerDestruction ''Snipping Tool Attempt (Win+Shift+S)''
                       (emit [PreventDefault] p3)
                else p3)
      in resetIdle now p4)"

definition onCopy :: "page \<Rightarrow> page" where
  "onCopy p = triggerDestruction ''Clipboard Copy'' (emit [PreventDefault] p)"

definition onClick :: "string \<Rightarrow> page \<Rightarrow> page" where
  "onClick tagName p = (if tagName = ''A'' then setSubmitting p else p)"

definition onBeforeUnload :: "page \<Rightarrow> page" where
  "onBeforeUnload p =
     (if \<not> destroyed (state p) \<and> \<not> isVerificationPage (config p)
      then triggerDestruction ''Page Reload/Unload'' p else p)"

definition bindEvents :: "page \<Rightarrow> page" where
  "bindEvents p = p\<lparr> listening := True \<rparr>"

subsection \<open>The idle timer\<close>

definition idleCheck :: "int \<Rightarrow> page \<Rightarrow> page" where
  "idleCheck now p =
     (if now - lastActivity (state p) > idleTimeout (config p)
      then triggerDestruction ''Idle Timeout (6s)'' p else p)"

definition startIdleTimer :: "page \<Rightarrow> page" where
  "startIdleTimer p = p\<lparr> intervals := intervals p @ [(IdleCheck, 1000)] \<rparr>"

subsection \<open>The camera\<close>

definition isBlocked :: "real \<Rightarrow> real \<Rightarrow> bool" where
  "isBlocked mean variance = (mean < 15 \<or> variance < 40)"

text \<open>
  \<^verbatim>\<open>!t.state.occlusionStart\<close> holds of \<^verbatim>\<open>null\<close> and of the number 0; \<open>runStart\<close> is the value
  of \<^verbatim>\<open>occlusionStart\<close> after line 284, where \<open>t0\<close> is what \<^verbatim>\<open>Date.now()\<close> returns there.
\<close>

definition runStart :: "int option \<Rightarrow> int \<Rightarrow> int" where
  "runStart os t0 = (case os of None \<Rightarrow> t0 | Some s \<Rightarrow> if s = 0 then t0 else s)"

definition occlusionCheck :: "stream \<Rightarrow> real \<Rightarrow> real \<Rightarrow> int \<Rightarrow> int \<Rightarrow> page \<Rightarrow> page" where
  "occlusionCheck v mean variance t0 t p =
     (if destroyed (state p) then p
      else
        let p1 = emit [DrawImage v] p;
            p2 =
              (if isBlocked mean variance then
                 let start = runStart (occlusionStart (state p1)) t0;
                     p3 = p1\<lparr> state := (state p1)\<lparr> occlusionStart := Some start \<rparr> \<rparr>;
                     duration = t - start;
                     p4 = (if duration > 1000 \<and> duration < 3000
                           then emit [SetBodyBorder ''5px solid red''] p3 else p3)
                 in (if duration > occlusionThreshold (config p4)
                     then triggerDestruction ''Camera Obstructed / Light Blocked'' p4 else p4)
               else emit [SetBodyBorder ''none'']
                      (p1\<lparr> state := (state p1)\<lparr> occlusionStart := None \<rparr> \<rparr>))
        in (if camView p2
            then emit [SetCamView (if isBlocked mean variance then ''red'' else ''green'')
                         (''L: '' @ show_int (math_round mean) @ '' V: ''
                          @ show_int (math_round variance))] p2
            else p2))"

text \<open>
  \<^verbatim>\<open>initCamera\<close> up to its \<^verbatim>\<open>await\<close>, and its two continuations: the rest of the \<^verbatim>\<open>try\<close> block
  when the stream is granted, the \<^verbatim>\<open>catch\<close> block when the request fails with a message.
\<close>

definition initCamera :: "page \<Rightarrow> page" where
  "initCamera p = (emit [GetUserMedia] p)\<lparr> pending := pending p @ [CameraRequest] \<rparr>"

definition cameraGranted :: "stream \<Rightarrow> page \<Rightarrow> page" where
  "cameraGranted s p =
     (emit [PlayVideo s] p)
       \<lparr> state := (state p)\<lparr> cameraStream := Some s, monitoringActive := True \<rparr>,
         intervals := intervals p @ [(OcclusionCheck s, 500)] \<rparr>"

definition cameraFailed :: "string \<Rightarrow> page \<Rightarrow> page" where
  "cameraFailed message p =
     triggerDestruction ''Camera Access Denied or Failed''
       (sendAlert ''camera'' (''Camera Permission Denied / Error: '' @ message) p)"

subsection \<open>The entry points\<close>

definition initVerification :: "string \<Rightarrow> string \<Rightarrow> string \<Rightarrow> page \<Rightarrow> page" where
  "initVerification fid durl hurl p =
     bindEvents (p\<lparr> config := (config p)\<lparr> fileId := Some fid, destroyUrl := Some durl,
                                          homeUrl := Some hurl, isVerificationPage := True \<rparr> \<rparr>)"

definition init :: "string \<Rightarrow> string \<Rightarrow> string \<Rightarrow> bool \<Rightarrow> page \<Rightarrow> page" where
  "init fid durl hurl dis p =
     (let p1 = bindEvents (p\<lparr> config := (config p)\<lparr> fileId := Some fid, destroyUrl := Some durl,
                                                   homeUrl := Some hurl, disableIdle := dis \<rparr> \<rparr>);
          p2 = (if \<not> dis then startIdleTimer p1 else p1)
      in initCamera p2)"

subsection \<open>The event loop\<close>

text \<open>
  A DOM event runs its listener once the listeners are bound; a timer runs its callback
  while it is registered; a settlement runs its continuation while its promise is
  pending. An event that has nothing to run leaves the page as it is.
\<close>

fun fire :: "event \<Rightarrow> page \<Rightarrow> page" where
  "fire Submit p = (if listening p then setSubmitting p else p)"
| "fire SubmitButtonClick p = (if listening p then setSubmitting p else p)"
| "fire (VisibilityChange hidden) p = (if listening p then onVisibilityChange hidden p else p)"
| "fire Blur p = (if listening p then onBlur p else p)"
| "fire (KeyUp k) p = (if listening p then onKeyUp k p else p)"
| "fire (KeyDown e now) p = (if listening p then onKeyDown e now p else p)"
| "fire ContextMenu p = (if listening p then emit [PreventDefault] p else p)"
| "fire SelectStart p = (if listening p then emit [PreventDefault] p else p)"
| "fire (MouseMove now) p = (if listening p then resetIdle now p else p)"
| "fire (MouseDown now) p = (if listening p then resetIdle now p else p)"
| "fire Copy p = (if listening p then onCopy p else p)"
| "fire (Click tagName) p = (if listening p then onClick tagName p else p)"
| "fire BeforeUnload p = (if listening p then onBeforeUnload p else p)"
| "fire (IdleTick now) p =
     (if (IdleCheck, 1000) \<in> set (intervals p) then idleCheck now p else p)"
| "fire (OcclusionTick v mean variance t0 t) p =
     (if (OcclusionCheck v, 500) \<in> set (intervals p)
      then occlusionCheck v mean variance t0 t p else p)"
| "fire (CameraGranted s) p =
     (if CameraRequest \<in> set (pending p)
      then cameraGranted s (p\<lparr> pending := remove1 CameraRequest (pending p) \<rparr>) else p)"
| "fire (CameraFailed message) p =
     (if CameraRequest \<in> set (pending p)
      then cameraFailed message (p\<lparr> pending := remove1 CameraRequest (pending p) \<rparr>) else p)"
| "fire (DestroyFetchSettled ok) p =
     (if DestroyFetch \<in> set (pending p)
      then destroyFetchSettled ok (p\<lparr> pending := remove1 DestroyFetch (pending p) \<rparr>) else p)"
| "fire RedirectTimeout p =
     (if (Redirect, 2000) \<in> set (timeouts p)
      then redirect (p\<lparr> timeouts := remove1 (Redirect, 2000) (timeouts p) \<rparr>) else p)"
| "fire StartCamera p = initCamera p"

fun run :: "event list \<Rightarrow> page \<Rightarrow> page" where
  "run [] p = p"
| "run (ev # evs) p = run evs (fire ev p)"

subsection \<open>An invariant of the page\<close>

text \<open>
  A page that is not destroyed has written no lockdown; a destroyed page has written at
  most one.
\<close>

definition one_shot :: "page \<Rightarrow> bool" where
  "one_shot p = (if destroyed (state p) then length (revocations (trace p)) \<le> 1
                 else revocations (trace p) = [])"

section \<open>Properties\<close>

subsection \<open>Basic facts\<close>

lemmas handler_defs = setSubmitting_def onVisibilityChange_def onBlur_def onKeyUp_def
  onKeyDown_def onCopy_def onClick_def onBeforeUnload_def idleCheck_def occlusionCheck_def
  cameraGranted_def cameraFailed_def destroyFetchSettled_def redirect_def initCamera_def
  resetIdle_def sendAlert_def emit_def

lemmas entry_defs = init_def initVerification_def bindEvents_def startIdleTimer_def boot_def

lemma revocations_append: "revocations (xs @ ys) = revocations xs @ revocations ys"
  by (induction xs rule: revocations.induct) simp_all

lemma revocations_revocation: "revocations (revocation p r) = [r]"
  by (simp add: revocation_def revocations_append split: option.splits)

lemma triggerDestruction_guard:
  "destroyed (state p) \<or> \<not> monitoringActive (state p) \<or> submitting (state p) \<Longrightarrow>
   triggerDestruction r p = p"
  by (simp add: triggerDestruction_def)

lemma triggerDestruction_destroyed:
  "destroyed (state (triggerDestruction r p)) =
     (destroyed (state p) \<or> (monitoringActive (state p) \<and> \<not> submitting (state p)))"
  by (auto simp: triggerDestruction_def)

lemma triggerDestruction_trace:
  "trace (triggerDestruction r p) =
     trace p @ (if destroyed (state p) \<or> \<not> monitoringActive (state p) \<or> submitting (state p)
                then [] else revocation p r)"
  by (simp add: triggerDestruction_def)

lemma one_shot_fire: "one_shot p \<Longrightarrow> one_shot (fire ev p)"
  by (cases ev)
     (auto simp: one_shot_def handler_defs Let_def triggerDestruction_def
        revocations_append revocations_revocation)

lemma one_shot_run: "one_shot p \<Longrightarrow> one_shot (run evs p)"
  by (induction evs arbitrary: p) (simp_all add: one_shot_fire)

lemma destroyed_fire: "destroyed (state p) \<Longrightarrow> destroyed (state (fire ev p))"
  by (cases ev) (auto simp: handler_defs Let_def triggerDestruction_def)

lemma destroyed_run: "destroyed (state p) \<Longrightarrow> destroyed (state (run evs p))"
  by (induction evs arbitrary: p) (simp_all add: destroyed_fire)

subsection \<open>The sampling callback\<close>

lemma occlusionCheck_destroyed: "destroyed (state p) \<Longrightarrow> occlusionCheck v m var t0 t p = p"
  by (simp add: occlusionCheck_def)

lemma occlusionCheck_frame:
  "config (occlusionCheck v m var t0 t p) = config p"
  "intervals (occlusionCheck v m var t0 t p) = intervals p"
  "monitoringActive (state (occlusionCheck v m var t0 t p)) = monitoringActive (state p)"
  "submitting (state (occlusionCheck v m var t0 t p)) = submitting (state p)"
  by (simp_all add: occlusionCheck_def emit_def Let_def triggerDestruction_def)

lemma occlusionCheck_blocked:
  assumes "\<not> destroyed (state p)" and "isBlocked m var"
  shows "occlusionStart (state (occlusionCheck v m var t0 t p))
           = Some (runStart (occlusionStart (state p)) t0)"
    and "destroyed (state (occlusionCheck v m var t0 t p))
           = (monitoringActive (state p) \<and> \<not> submitting (state p)
              \<and> t - runStart (occlusionStart (state p)) t0 > occlusionThreshold (config p))"
    and "revocations (trace (occlusionCheck v m var t0 t p))
           = revocations (trace p)
             @ (if monitoringActive (state p) \<and> \<not> submitting (state p)
                   \<and> t - runStart (occlusionStart (state p)) t0 > occlusionThreshold (config p)
                then [''Camera Obstructed / Light Blocked''] else [])"
  using assms
  by (auto simp: occlusionCheck_def emit_def Let_def triggerDestruction_def
      revocations_append revocations_revocation)

lemma occlusionCheck_clear:
  "\<not> destroyed (state p) \<Longrightarrow> \<not> isBlocked m var \<Longrightarrow>
   occlusionStart (state (occlusionCheck v m var t0 t p)) = None"
  by (simp add: occlusionCheck_def emit_def Let_def)

lemma runStart_Some: "s \<noteq> 0 \<Longrightarrow> runStart (Some s) t0 = s"
  by (simp add: runStart_def)

lemma runStart_None: "runStart None t0 = t0"
  by (simp add: runStart_def)

lemma run_ticks_destroyed:
  "destroyed (state p) \<Longrightarrow>
   run (map (\<lambda>(m, var, t0, t). OcclusionTick v m var t0 t) xs) p = p"
  by (induction xs arbitrary: p) (auto simp: occlusionCheck_destroyed)

lemma blocked_run:
  assumes "(OcclusionCheck v, 500) \<in> set (intervals p)"
    and "\<not> destroyed (state p)"
    and "occlusionStart (state p) = Some s" and "s \<noteq> 0"
    and "\<forall>(m, var, t0, t) \<in> set xs. isBlocked m var"
  shows "destroyed (state (run (map (\<lambda>(m, var, t0, t). OcclusionTick v m var t0 t) xs) p))
           = (monitoringActive (state p) \<and> \<not> submitting (state p)
              \<and> (\<exists>(m, var, t0, t) \<in> set xs. t - s > occlusionThreshold (config p)))
         \<and> revocations (trace (run (map (\<lambda>(m, var, t0, t). OcclusionTick v m var t0 t) xs) p))
           = revocations (trace p)
             @ (if monitoringActive (state p) \<and> \<not> submitting (state p)
                   \<and> (\<exists>(m, var, t0, t) \<in> set xs. t - s > occlusionThreshold (config p))
                then [''Camera Obstructed / Light Blocked''] else [])"
  using assms
proof (induction xs arbitrary: p)
  case Nil
  then show ?case by simp
next
  case (Cons x xs)
  obtain m var t0 t where x: "x = (m, var, t0, t)" by (cases x) auto
  let ?q = "occlusionCheck v m var t0 t p"
  from Cons.prems x have b: "isBlocked m var" by simp
  have f: "fire (OcclusionTick v m var t0 t) p = ?q" using Cons.prems(1) by simp
  note q = occlusionCheck_blocked [OF Cons.prems(2) b, of v t0 t]
  have rs: "runStart (occlusionStart (state p)) t0 = s"
    using Cons.prems(3,4) by (simp add: runStart_Some)
  show ?case
  proof (cases "destroyed (state ?q)")
    case True
    then have "run (map (\<lambda>(m, var, t0, t). OcclusionTick v m var t0 t) xs) ?q = ?q"
      by (rule run_ticks_destroyed)
    with True q rs x f show ?thesis by auto
  next
    case False
    have ih: "destroyed (state (run (map (\<lambda>(m, var, t0, t). OcclusionTick v m var t0 t) xs) ?q))
           = (monitoringActive (state ?q) \<and> \<not> submitting (state ?q)
              \<and> (\<exists>(m, var, t0, t) \<in> set xs. t - s > occlusionThreshold (config ?q)))
         \<and> revocations (trace (run (map (\<lambda>(m, var, t0, t). OcclusionTick v m var t0 t) xs) ?q))
           = revocations (trace ?q)
             @ (if monitoringActive (state ?q) \<and> \<not> submitting (state ?q)
                   \<and> (\<exists>(m, var, t0, t) \<in> set xs. t - s > occlusionThreshold (config ?q))
                then [''Camera Obstructed / Light Blocked''] else [])"
      using Cons.prems False q(1) rs
      by (intro Cons.IH) (simp_all add: occlusionCheck_frame)
    from False q rs ih x f show ?thesis
      by (auto simp: occlusionCheck_frame)
  qed
qed

subsection \<open>The idle check\<close>

lemma no_idle_fire:
  "(IdleCheck, 1000) \<notin> set (intervals p) \<Longrightarrow>
   ''Idle Timeout (6s)'' \<notin> set (revocations (trace p)) \<Longrightarrow>
   (IdleCheck, 1000) \<notin> set (intervals (fire ev p))
   \<and> ''Idle Timeout (6s)'' \<notin> set (revocations (trace (fire ev p)))"
  by (cases ev)
     (auto simp: handler_defs Let_def triggerDestruction_def
        revocations_append revocations_revocation)

lemma no_idle_run:
  "(IdleCheck, 1000) \<notin> set (intervals p) \<Longrightarrow>
   ''Idle Timeout (6s)'' \<notin> set (revocations (trace p)) \<Longrightarrow>
   (IdleCheck, 1000) \<notin> set (intervals (run evs p))
   \<and> ''Idle Timeout (6s)'' \<notin> set (revocations (trace (run evs p)))"
proof (induction evs arbitrary: p)
  case Nil
  then show ?case by simp
next
  case (Cons ev evs)
  from no_idle_fire [OF Cons.prems] Cons.IH [of "fire ev p"] show ?case by simp
qed

lemma resetIdle_resetIdle: "resetIdle b (resetIdle a p) = resetIdle b p"
  by (simp add: resetIdle_def)

lemma activity_postpones:
  "listening p \<Longrightarrow> \<forall>(a, b) \<in> set xs. b - a \<le> idleTimeout (config p) \<Longrightarrow>
   run (concat (map (\<lambda>(a, b). [MouseMove a, IdleTick b]) xs)) p
     = (if xs = [] then p else resetIdle (fst (last xs)) p)"
proof (induction xs arbitrary: p)
  case Nil
  then show ?case by simp
next
  case (Cons x xs)
  obtain a b where x: "x = (a, b)" by (cases x)
  from Cons.prems x have ab: "b - a \<le> idleTimeout (config p)" by simp
  have 1: "fire (MouseMove a) p = resetIdle a p" using Cons.prems(1) by simp
  have 2: "fire (IdleTick b) (resetIdle a p) = resetIdle a p"
    using ab by (simp add: idleCheck_def resetIdle_def)
  have "run (concat (map (\<lambda>(a, b). [MouseMove a, IdleTick b]) xs)) (resetIdle a p)
          = (if xs = [] then resetIdle a p else resetIdle (fst (last xs)) (resetIdle a p))"
    using Cons.prems by (intro Cons.IH) (simp_all add: resetIdle_def)
  with 1 2 x show ?case by (simp add: resetIdle_resetIdle)
qed

subsection \<open>A destroyed page\<close>

lemma destroyed_fire_quiet:
  assumes "destroyed (state p)"
  shows "take (length (trace p)) (trace (fire ev p)) = trace p"
    and "\<forall>e \<in> set (drop (length (trace p)) (trace (fire ev p))).
           e = PreventDefault \<or> e = GetUserMedia \<or> (\<exists>s. e = PlayVideo s)
           \<or> (\<exists>u. e = LocationReplace u)"
  using assms
  by (cases ev; auto simp: handler_defs Let_def triggerDestruction_def)+

lemma destroyed_fire_revocations:
  "destroyed (state p) \<Longrightarrow> revocations (trace (fire ev p)) = revocations (trace p)"
  by (cases ev) (auto simp: handler_defs Let_def triggerDestruction_def revocations_append)

lemma destroyed_run_revocations:
  "destroyed (state p) \<Longrightarrow> revocations (trace (run evs p)) = revocations (trace p)"
proof (induction evs arbitrary: p)
  case Nil
  then show ?case by simp
next
  case (Cons ev evs)
  from Cons.prems have "destroyed (state (fire ev p))" by (rule destroyed_fire)
  then have "revocations (trace (run evs (fire ev p))) = revocations (trace (fire ev p))"
    by (rule Cons.IH)
  with Cons.prems show ?case by (simp add: destroyed_fire_revocations)
qed

subsection \<open>A page that is not monitoring\<close>

lemma grace_fire:
  assumes "ev \<noteq> StartCamera" and "\<not> monitoringActive (state p)"
    and "CameraRequest \<notin> set (pending p)" and "GetUserMedia \<notin> set (trace p)"
  shows "\<not> monitoringActive (state (fire ev p)) \<and> CameraRequest \<notin> set (pending (fire ev p))
     \<and> GetUserMedia \<notin> set (trace (fire ev p))
     \<and> intervals (fire ev p) = intervals p
     \<and> revocations (trace (fire ev p)) = revocations (trace p)
     \<and> destroyed (state (fire ev p)) = destroyed (state p)"
  using assms
  by (cases ev) (auto simp: handler_defs Let_def triggerDestruction_def revocations_append)

lemma grace_run:
  assumes "StartCamera \<notin> set evs" and "\<not> monitoringActive (state p)"
    and "CameraRequest \<notin> set (pending p)" and "GetUserMedia \<notin> set (trace p)"
  shows "\<not> monitoringActive (state (run evs p))
     \<and> GetUserMedia \<notin> set (trace (run evs p))
     \<and> intervals (run evs p) = intervals p
     \<and> revocations (trace (run evs p)) = revocations (trace p)
     \<and> destroyed (state (run evs p)) = destroyed (state p)"
  using assms
proof (induction evs arbitrary: p)
  case Nil
  then show ?case by simp
next
  case (Cons ev evs)
  from Cons.prems have ne: "ev \<noteq> StartCamera" by auto
  note f = grace_fire [OF ne Cons.prems(2,3,4)]
  from Cons.prems f have "\<not> monitoringActive (state (run evs (fire ev p)))
     \<and> GetUserMedia \<notin> set (trace (run evs (fire ev p)))
     \<and> intervals (run evs (fire ev p)) = intervals (fire ev p)
     \<and> revocations (trace (run evs (fire ev p))) = revocations (trace (fire ev p))
     \<and> destroyed (state (run evs (fire ev p))) = destroyed (state (fire ev p))"
    by (intro Cons.IH) simp_all
  with f show ?case by simp
qed

lemma monitoringActive_fire:
  "monitoringActive (state p) \<Longrightarrow> monitoringActive (state (fire ev p))"
  by (cases ev) (auto simp: handler_defs Let_def triggerDestruction_def)

lemma inactive_fire:
  assumes "\<not> monitoringActive (state (fire ev p))"
  shows "\<not> monitoringActive (state p)"
    and "intervals (fire ev p) = intervals p"
    and "revocations (trace (fire ev p)) = revocations (trace p)"
    and "destroyed (state (fire ev p)) = destroyed (state p)"
proof -
  from assms show n: "\<not> monitoringActive (state p)"
    using monitoringActive_fire by blast
  from n assms show "intervals (fire ev p) = intervals p"
    and "revocations (trace (fire ev p)) = revocations (trace p)"
    and "destroyed (state (fire ev p)) = destroyed (state p)"
    by (cases ev; auto simp: handler_defs Let_def triggerDestruction_def revocations_append)+
qed

lemma inactive_run:
  "\<not> monitoringActive (state (run evs p)) \<Longrightarrow>
   \<not> monitoringActive (state p)
   \<and> intervals (run evs p) = intervals p
   \<and> revocations (trace (run evs p)) = revocations (trace p)
   \<and> destroyed (state (run evs p)) = destroyed (state p)"
proof (induction evs arbitrary: p)
  case Nil
  then show ?case by simp
next
  case (Cons ev evs)
  from Cons.prems have "\<not> monitoringActive (state (run evs (fire ev p)))" by simp
  from Cons.IH [OF this] inactive_fire [of ev p] show ?case by simp
qed

lemma no_grant_fire:
  "\<forall>s. ev \<noteq> CameraGranted s \<Longrightarrow> \<not> monitoringActive (state p) \<Longrightarrow>
   \<not> monitoringActive (state (fire ev p))"
  by (cases ev) (auto simp: handler_defs Let_def triggerDestruction_def)

lemma no_grant_run:
  "\<forall>s. CameraGranted s \<notin> set evs \<Longrightarrow> \<not> monitoringActive (state p) \<Longrightarrow>
   \<not> monitoringActive (state (run evs p))"
proof (induction evs arbitrary: p)
  case Nil
  then show ?case by simp
next
  case (Cons ev evs)
  from Cons.prems have "\<forall>s. ev \<noteq> CameraGranted s" by auto
  from no_grant_fire [OF this Cons.prems(2)] Cons.prems(1) Cons.IH [of "fire ev p"]
  show ?case by simp
qed

subsection \<open>The guarded transition\<close>

text \<open>
  Claim C1. \<^verbatim>\<open>triggerDestruction\<close> leaves the page as it is when \<open>destroyed\<close> is set,
  \<open>monitoringActive\<close> is not set, or \<open>submitting\<close> is set. Otherwise it sets \<open>destroyed\<close> and
  appends the revocation sequence, which writes one lockdown carrying the given reason; from
  then on, whatever events follow, a further call changes nothing. Over any sequence of
  events, starting from a page that is not destroyed and has written no lockdown, at most
  one lockdown is written.
\<close>

theorem triggerDestruction_at_most_once:
  "(destroyed (state p) \<or> \<not> monitoringActive (state p) \<or> submitting (state p) \<longrightarrow>
      triggerDestruction reason p = p)
   \<and> (\<not> destroyed (state p) \<and> monitoringActive (state p) \<and> \<not> submitting (state p) \<longrightarrow>
        destroyed (state (triggerDestruction reason p))
      \<and> trace (triggerDestruction reason p) = trace p @ revocation p reason
      \<and> revocations (revocation p reason) = [reason]
      \<and> triggerDestruction reason' (run evs (triggerDestruction reason p))
          = run evs (triggerDestruction reason p))
   \<and> (\<not> destroyed (state p) \<and> revocations (trace p) = [] \<longrightarrow>
        length (revocations (trace (run evs p))) \<le> 1)"
proof (intro conjI impI)
  assume "destroyed (state p) \<or> \<not> monitoringActive (state p) \<or> submitting (state p)"
  then show "triggerDestruction reason p = p" by (rule triggerDestruction_guard)
next
  assume q: "\<not> destroyed (state p) \<and> monitoringActive (state p) \<and> \<not> submitting (state p)"
  then show d: "destroyed (state (triggerDestruction reason p))"
    by (simp add: triggerDestruction_destroyed)
  from q show "trace (triggerDestruction reason p) = trace p @ revocation p reason"
    by (simp add: triggerDestruction_trace)
  show "revocations (revocation p reason) = [reason]" by (rule revocations_revocation)
  from d have "destroyed (state (run evs (triggerDestruction reason p)))" by (rule destroyed_run)
  then show "triggerDestruction reason' (run evs (triggerDestruction reason p))
          = run evs (triggerDestruction reason p)"
    by (simp add: triggerDestruction_guard)
next
  assume "\<not> destroyed (state p) \<and> revocations (trace p) = []"
  then have "one_shot p" by (simp add: one_shot_def)
  then have "one_shot (run evs p)" by (rule one_shot_run)
  then show "length (revocations (trace (run evs p))) \<le> 1"
    by (simp add: one_shot_def split: if_splits)
qed

theorem triggerDestruction_at_most_once_witness:
  "triggerDestruction ''Clipboard Copy'' (boot 0 True None False) = boot 0 True None False
   \<and> destroyed (state (triggerDestruction ''Clipboard Copy''
        (fire (CameraGranted 1) (init ''f'' ''/d'' ''/h'' False (boot 0 True None False)))))
   \<and> length (revocations (trace (run [CameraGranted 1, Blur, Copy, IdleTick 9000]
        (init ''f'' ''/d'' ''/h'' False (boot 0 True None False))))) \<le> 1"
proof -
  let ?B = "boot 0 True None False"
  let ?I = "init ''f'' ''/d'' ''/h'' False ?B"
  let ?G = "fire (CameraGranted 1) ?I"
  have b: "\<not> monitoringActive (state ?B)"
    by (simp add: boot_def)
  have i: "\<not> destroyed (state ?I) \<and> revocations (trace ?I) = []"
    by (simp add: entry_defs initCamera_def emit_def)
  have g: "\<not> destroyed (state ?G) \<and> monitoringActive (state ?G) \<and> \<not> submitting (state ?G)"
    by (simp add: entry_defs initCamera_def cameraGranted_def emit_def)
  from b triggerDestruction_at_most_once [of ?B "''Clipboard Copy''"]
  have 1: "triggerDestruction ''Clipboard Copy'' ?B = ?B" by blast
  from g triggerDestruction_at_most_once [of ?G "''Clipboard Copy''"]
  have 2: "destroyed (state (triggerDestruction ''Clipboard Copy'' ?G))" by blast
  from i triggerDestruction_at_most_once [of ?I _ _ "[CameraGranted 1, Blur, Copy, IdleTick 9000]"]
  have 3: "length (revocations (trace (run [CameraGranted 1, Blur, Copy, IdleTick 9000] ?I))) \<le> 1"
    by blast
  from 1 2 3 show ?thesis by blast
qed

subsection \<open>Camera acquisition failure\<close>

text \<open>
  Claim C2. When the camera request of \<^verbatim>\<open>init\<close> fails, the \<^verbatim>\<open>catch\<close> block sends one alert
  and then calls \<^verbatim>\<open>triggerDestruction\<close>; \<open>monitoringActive\<close> is still unset there, so the
  call returns at its guard: the trace holds the camera request and the alert and nothing
  else, no lockdown is written and \<open>destroyed\<close> stays unset.
\<close>

theorem camera_failure_alert_without_revocation:
  "trace (fire (CameraFailed message) (init fid durl hurl dis (boot now sb csrf cv)))
     = [GetUserMedia,
        Fetch (Some ''/alert'')
          [(''Content-Type'', Some ''application/json''), (''X-CSRFToken'', csrf)]
          [(''file_id'', JStr fid), (''type'', JStr ''camera''),
           (''reason'', JStr (''Camera Permission Denied / Error: '' @ message))] False]
   \<and> \<not> destroyed (state (fire (CameraFailed message) (init fid durl hurl dis (boot now sb csrf cv))))
   \<and> revocations (trace (fire (CameraFailed message)
        (init fid durl hurl dis (boot now sb csrf cv)))) = []"
  by (simp add: entry_defs handler_defs triggerDestruction_def Let_def)

subsection \<open>Visibility, focus and unload\<close>

text \<open>
  Claim C3, as stated, fails in default mode before the camera is granted: the page is
  neither destroyed nor submitting, and a blur or a hidden tab leaves it as it is.
\<close>

theorem blur_before_consent_counterexample:
  "\<not> isVerificationPage (config (init ''f'' ''/d'' ''/h'' False (boot 0 True None False)))
   \<and> \<not> destroyed (state (init ''f'' ''/d'' ''/h'' False (boot 0 True None False)))
   \<and> \<not> submitting (state (init ''f'' ''/d'' ''/h'' False (boot 0 True None False)))
   \<and> fire Blur (init ''f'' ''/d'' ''/h'' False (boot 0 True None False))
       = init ''f'' ''/d'' ''/h'' False (boot 0 True None False)
   \<and> fire (VisibilityChange True) (init ''f'' ''/d'' ''/h'' False (boot 0 True None False))
       = init ''f'' ''/d'' ''/h'' False (boot 0 True None False)
   \<and> revocations (trace (fire Blur (init ''f'' ''/d'' ''/h'' False (boot 0 True None False)))) = []"
  by (simp add: entry_defs handler_defs triggerDestruction_def Let_def)

text \<open>
  Claim C3, amended. In verification mode a visibility change, a blur and an unload leave
  the page as it is. In default mode, with the listeners bound, a blur or a hidden tab runs
  the revocation sequence with its reason when the page is monitoring, not destroyed and
  not submitting; when the page is destroyed, submitting or not yet monitoring, they leave
  it as it is.
\<close>

theorem visibility_blur_unload:
  "(isVerificationPage (config p) \<longrightarrow>
      fire (VisibilityChange hidden) p = p \<and> fire Blur p = p \<and> fire BeforeUnload p = p)
   \<and> (\<not> isVerificationPage (config p) \<and> listening p \<and> \<not> destroyed (state p)
        \<and> \<not> submitting (state p) \<and> monitoringActive (state p) \<longrightarrow>
        destroyed (state (fire Blur p))
      \<and> trace (fire Blur p) = trace p @ revocation p ''Window Focus Lost''
      \<and> destroyed (state (fire (VisibilityChange True) p))
      \<and> trace (fire (VisibilityChange True) p) = trace p @ revocation p ''Tab Switch / Minimize'')
   \<and> (destroyed (state p) \<or> submitting (state p) \<or> \<not> monitoringActive (state p) \<longrightarrow>
        fire Blur p = p \<and> fire (VisibilityChange hidden) p = p)"
  by (simp add: handler_defs triggerDestruction_def)

theorem visibility_blur_unload_witness:
  "fire Blur (initVerification ''f'' ''/d'' ''/h'' (boot 0 True None False))
     = initVerification ''f'' ''/d'' ''/h'' (boot 0 True None False)
   \<and> destroyed (state (fire Blur
        (fire (CameraGranted 1) (init ''f'' ''/d'' ''/h'' False (boot 0 True None False)))))
   \<and> fire Blur (fire Submit (fire (CameraGranted 1)
        (init ''f'' ''/d'' ''/h'' False (boot 0 True None False))))
      = fire Submit (fire (CameraGranted 1) (init ''f'' ''/d'' ''/h'' False (boot 0 True None False)))"
proof -
  let ?V = "initVerification ''f'' ''/d'' ''/h'' (boot 0 True None False)"
  let ?G = "fire (CameraGranted 1) (init ''f'' ''/d'' ''/h'' False (boot 0 True None False))"
  let ?S = "fire Submit ?G"
  have v: "isVerificationPage (config ?V)"
    by (simp add: entry_defs)
  have g: "\<not> isVerificationPage (config ?G) \<and> listening ?G \<and> \<not> destroyed (state ?G)
           \<and> \<not> submitting (state ?G) \<and> monitoringActive (state ?G)"
    by (simp add: entry_defs initCamera_def cameraGranted_def emit_def)
  have s: "submitting (state ?S)"
    by (simp add: entry_defs initCamera_def cameraGranted_def emit_def setSubmitting_def)
  from v visibility_blur_unload [of ?V] have 1: "fire Blur ?V = ?V" by blast
  from g visibility_blur_unload [of ?G] have 2: "destroyed (state (fire Blur ?G))" by blast
  from s visibility_blur_unload [of ?S] have 3: "fire Blur ?S = ?S" by blast
  from 1 2 3 show ?thesis by blast
qed

subsection \<open>Occlusion classification\<close>

text \<open>
  Claim C4. The sampling callback labels a frame blocked exactly when its mean luminance is
  below 15 or its variance is below 40: mean 10 with variance 100 is blocked, mean 200 with
  variance 10 is blocked, mean 200 with variance 100 is clear. On a page that is not
  destroyed the label decides what the callback does: after it, a run start is recorded
  exactly when the frame was blocked, and when the element \<^verbatim>\<open>camView\<close> is still in the
  document its border is red for a blocked frame and green for a clear one.
\<close>

theorem occlusion_classification:
  "isBlocked 10 100 \<and> isBlocked 200 10 \<and> \<not> isBlocked 200 100
   \<and> isBlocked mean variance = (mean < 15 \<or> variance < 40)
   \<and> (\<not> destroyed (state p) \<longrightarrow>
        (occlusionStart (state (occlusionCheck v mean variance t0 t p)) \<noteq> None)
          = (mean < 15 \<or> variance < 40)
      \<and> (camView (occlusionCheck v mean variance t0 t p) \<longrightarrow>
            last (trace (occlusionCheck v mean variance t0 t p))
              = SetCamView (if mean < 15 \<or> variance < 40 then ''red'' else ''green'')
                  (''L: '' @ show_int (math_round mean) @ '' V: ''
                   @ show_int (math_round variance))))"
  by (simp add: isBlocked_def occlusionCheck_def emit_def Let_def triggerDestruction_def)

theorem occlusion_classification_witness:
  "occlusionStart (state (occlusionCheck 1 10 100 5000 5000
      (fire (CameraGranted 1) (init ''f'' ''/d'' ''/h'' False (boot 0 True None True))))) \<noteq> None
   \<and> occlusionStart (state (occlusionCheck 1 200 10 5000 5000
      (fire (CameraGranted 1) (init ''f'' ''/d'' ''/h'' False (boot 0 True None True))))) \<noteq> None
   \<and> occlusionStart (state (occlusionCheck 1 200 100 5000 5000
      (fire (CameraGranted 1) (init ''f'' ''/d'' ''/h'' False (boot 0 True None True))))) = None"
proof -
  let ?G = "fire (CameraGranted 1) (init ''f'' ''/d'' ''/h'' False (boot 0 True None True))"
  have g: "\<not> destroyed (state ?G)"
    by (simp add: entry_defs initCamera_def cameraGranted_def emit_def)
  from g occlusion_classification [of 10 100 ?G 1 5000 5000]
  have 1: "occlusionStart (state (occlusionCheck 1 10 100 5000 5000 ?G)) \<noteq> None" by simp
  from g occlusion_classification [of 200 10 ?G 1 5000 5000]
  have 2: "occlusionStart (state (occlusionCheck 1 200 10 5000 5000 ?G)) \<noteq> None" by simp
  from g occlusion_classification [of 200 100 ?G 1 5000 5000]
  have 3: "occlusionStart (state (occlusionCheck 1 200 100 5000 5000 ?G)) = None" by simp
  from 1 2 3 show ?thesis by blast
qed

subsection \<open>Blocked runs\<close>

text \<open>
  Claim C5. On a page that is not destroyed and whose sampler is registered: the first
  blocked frame of a run stores its clock reading as the start (a reading of 0 counts as
  none), a later blocked frame keeps the stored start, and a clear frame resets it to none.
  Over a run of blocked frames that begins with no start recorded, the page is destroyed
  after the run exactly when it is monitoring, not submitting, and some tick of the run
  read a duration above the configured threshold; the lockdown written then carries the
  obstruction reason. So the escalation happens on the first such tick and on no earlier
  one.
\<close>

theorem occlusion_run_escalation:
  "\<not> destroyed (state p) \<and> (OcclusionCheck v, 500) \<in> set (intervals p) \<longrightarrow>
     (isBlocked m var \<and> occlusionStart (state p) = None \<and> t0 \<noteq> 0 \<longrightarrow>
        occlusionStart (state (fire (OcclusionTick v m var t0 t) p)) = Some t0)
   \<and> (isBlocked m var \<and> occlusionStart (state p) = Some s \<and> s \<noteq> 0 \<longrightarrow>
        occlusionStart (state (fire (OcclusionTick v m var t0 t) p)) = Some s)
   \<and> (\<not> isBlocked m var \<longrightarrow>
        occlusionStart (state (fire (OcclusionTick v m var t0 t) p)) = None)
   \<and> (isBlocked m var \<and> occlusionStart (state p) = None \<and> t0 \<noteq> 0
        \<and> (\<forall>(m', var', t0', t') \<in> set xs. isBlocked m' var') \<longrightarrow>
        destroyed (state (run (map (\<lambda>(m', var', t0', t'). OcclusionTick v m' var' t0' t')
                                ((m, var, t0, t) # xs)) p))
          = (monitoringActive (state p) \<and> \<not> submitting (state p)
             \<and> (\<exists>(m', var', t0', t') \<in> set ((m, var, t0, t) # xs).
                   t' - t0 > occlusionThreshold (config p)))
      \<and> revocations (trace (run (map (\<lambda>(m', var', t0', t'). OcclusionTick v m' var' t0' t')
                                ((m, var, t0, t) # xs)) p))
          = revocations (trace p)
            @ (if monitoringActive (state p) \<and> \<not> submitting (state p)
                  \<and> (\<exists>(m', var', t0', t') \<in> set ((m, var, t0, t) # xs).
                        t' - t0 > occlusionThreshold (config p))
               then [''Camera Obstructed / Light Blocked''] else []))"
proof (intro impI, elim conjE, intro conjI impI)
  assume nd: "\<not> destroyed (state p)" and reg: "(OcclusionCheck v, 500) \<in> set (intervals p)"
  have f: "fire (OcclusionTick v m var t0 t) p = occlusionCheck v m var t0 t p"
    using reg by simp
  {
    assume "isBlocked m var \<and> occlusionStart (state p) = None \<and> t0 \<noteq> 0"
    then show "occlusionStart (state (fire (OcclusionTick v m var t0 t) p)) = Some t0"
      using nd f by (simp add: occlusionCheck_blocked(1) runStart_None)
  }
  {
    assume "isBlocked m var \<and> occlusionStart (state p) = Some s \<and> s \<noteq> 0"
    then show "occlusionStart (state (fire (OcclusionTick v m var t0 t) p)) = Some s"
      using nd f by (simp add: occlusionCheck_blocked(1) runStart_Some)
  }
  {
    assume "\<not> isBlocked m var"
    then show "occlusionStart (state (fire (OcclusionTick v m var t0 t) p)) = None"
      using nd f by (simp add: occlusionCheck_clear)
  }
  assume a: "isBlocked m var \<and> occlusionStart (state p) = None \<and> t0 \<noteq> 0
        \<and> (\<forall>(m', var', t0', t') \<in> set xs. isBlocked m' var')"
  let ?q = "occlusionCheck v m var t0 t p"
  let ?ticks = "map (\<lambda>(m', var', t0', t'). OcclusionTick v m' var' t0' t') xs"
  from a have b: "isBlocked m var" by simp
  note q = occlusionCheck_blocked [OF nd b, of v t0 t]
  have rs: "runStart (occlusionStart (state p)) t0 = t0" using a by (simp add: runStart_None)
  have both: "destroyed (state (run ?ticks ?q))
          = (monitoringActive (state p) \<and> \<not> submitting (state p)
             \<and> (\<exists>(m', var', t0', t') \<in> set ((m, var, t0, t) # xs).
                   t' - t0 > occlusionThreshold (config p)))
      \<and> revocations (trace (run ?ticks ?q))
          = revocations (trace p)
            @ (if monitoringActive (state p) \<and> \<not> submitting (state p)
                  \<and> (\<exists>(m', var', t0', t') \<in> set ((m, var, t0, t) # xs).
                        t' - t0 > occlusionThreshold (config p))
               then [''Camera Obstructed / Light Blocked''] else [])"
  proof (cases "destroyed (state ?q)")
    case True
    then have "run ?ticks ?q = ?q" by (rule run_ticks_destroyed)
    with True q rs show ?thesis by auto
  next
    case False
    have "destroyed (state (run ?ticks ?q))
           = (monitoringActive (state ?q) \<and> \<not> submitting (state ?q)
              \<and> (\<exists>(m, var, t0', t) \<in> set xs. t - t0 > occlusionThreshold (config ?q)))
         \<and> revocations (trace (run ?ticks ?q))
           = revocations (trace ?q)
             @ (if monitoringActive (state ?q) \<and> \<not> submitting (state ?q)
                   \<and> (\<exists>(m, var, t0', t) \<in> set xs. t - t0 > occlusionThreshold (config ?q))
                then [''Camera Obstructed / Light Blocked''] else [])"
      using reg False q(1) rs a
      by (intro blocked_run) (simp_all add: occlusionCheck_frame)
    with False q rs show ?thesis by (auto simp: occlusionCheck_frame)
  qed
  from both f
  show "destroyed (state (run (map (\<lambda>(m', var', t0', t'). OcclusionTick v m' var' t0' t')
                                ((m, var, t0, t) # xs)) p))
          = (monitoringActive (state p) \<and> \<not> submitting (state p)
             \<and> (\<exists>(m', var', t0', t') \<in> set ((m, var, t0, t) # xs).
                   t' - t0 > occlusionThreshold (config p)))"
    by simp
  from both f
  show "revocations (trace (run (map (\<lambda>(m', var', t0', t'). OcclusionTick v m' var' t0' t')
                                ((m, var, t0, t) # xs)) p))
          = revocations (trace p)
            @ (if monitoringActive (state p) \<and> \<not> submitting (state p)
                  \<and> (\<exists>(m', var', t0', t') \<in> set ((m, var, t0, t) # xs).
                        t' - t0 > occlusionThreshold (config p))
               then [''Camera Obstructed / Light Blocked''] else [])"
    by simp
qed

theorem occlusion_run_escalation_witness:
  "occlusionStart (state (fire (OcclusionTick 1 5 0 10000 10000)
      (fire (CameraGranted 1) (init ''f'' ''/d'' ''/h'' False (boot 0 True None False)))))
     = Some 10000
   \<and> \<not> destroyed (state (run [OcclusionTick 1 5 0 10000 10000, OcclusionTick 1 5 0 10500 10500,
        OcclusionTick 1 5 0 13000 13000]
      (fire (CameraGranted 1) (init ''f'' ''/d'' ''/h'' False (boot 0 True None False)))))
   \<and> destroyed (state (run [OcclusionTick 1 5 0 10000 10000, OcclusionTick 1 5 0 10500 10500,
        OcclusionTick 1 5 0 13000 13000, OcclusionTick 1 5 0 13500 13500]
      (fire (CameraGranted 1) (init ''f'' ''/d'' ''/h'' False (boot 0 True None False)))))"
proof -
  let ?G = "fire (CameraGranted 1) (init ''f'' ''/d'' ''/h'' False (boot 0 True None False))"
  have g: "\<not> destroyed (state ?G)" "(OcclusionCheck 1, 500) \<in> set (intervals ?G)"
    "occlusionStart (state ?G) = None" "monitoringActive (state ?G)" "\<not> submitting (state ?G)"
    "occlusionThreshold (config ?G) = 3000"
    by (simp_all add: entry_defs initCamera_def cameraGranted_def emit_def)
  have b: "isBlocked 5 0" by (simp add: isBlocked_def)
  from g b occlusion_run_escalation [where p = ?G and v = 1 and m = 5 and var = 0
      and ?t0.0 = 10000 and t = 10000 and xs = "[]"]
  have 1: "occlusionStart (state (fire (OcclusionTick 1 5 0 10000 10000) ?G)) = Some 10000"
    by simp
  from g b occlusion_run_escalation [where p = ?G and v = 1 and m = 5 and var = 0
      and ?t0.0 = 10000 and t = 10000 and xs = "[(5, 0, 10500, 10500), (5, 0, 13000, 13000)]"]
  have 2: "\<not> destroyed (state (run [OcclusionTick 1 5 0 10000 10000,
      OcclusionTick 1 5 0 10500 10500, OcclusionTick 1 5 0 13000 13000] ?G))"
    by simp
  from g b occlusion_run_escalation [where p = ?G and v = 1 and m = 5 and var = 0
      and ?t0.0 = 10000 and t = 10000
      and xs = "[(5, 0, 10500, 10500), (5, 0, 13000, 13000), (5, 0, 13500, 13500)]"]
  have 3: "destroyed (state (run [OcclusionTick 1 5 0 10000 10000,
      OcclusionTick 1 5 0 10500 10500, OcclusionTick 1 5 0 13000 13000,
      OcclusionTick 1 5 0 13500 13500] ?G))"
    by simp
  from 1 2 3 show ?thesis by blast
qed

subsection \<open>The warning window\<close>

text \<open>
  Claim C6. The warning window of line 287 ends at the literal 3000, not at the
  configured threshold. With the threshold configured to 5000, a blocked run of 4000 ms
  draws its two frames and does nothing else: no border is set, nothing is escalated.
\<close>

theorem warning_window_ignores_configured_threshold:
  "occlusionThreshold (config (fire (CameraGranted 1) (init ''f'' ''/d'' ''/h'' False
      ((boot 0 True None False)
         \<lparr> config := (config (boot 0 True None False))\<lparr> occlusionThreshold := 5000 \<rparr> \<rparr>)))) = 5000
   \<and> trace (run [OcclusionTick 1 5 0 10000 10000, OcclusionTick 1 5 0 14000 14000]
        (fire (CameraGranted 1) (init ''f'' ''/d'' ''/h'' False
          ((boot 0 True None False)
             \<lparr> config := (config (boot 0 True None False))\<lparr> occlusionThreshold := 5000 \<rparr> \<rparr>))))
      = [GetUserMedia, PlayVideo 1, DrawImage 1, DrawImage 1]
   \<and> occlusionStart (state (run [OcclusionTick 1 5 0 10000 10000, OcclusionTick 1 5 0 14000 14000]
        (fire (CameraGranted 1) (init ''f'' ''/d'' ''/h'' False
          ((boot 0 True None False)
             \<lparr> config := (config (boot 0 True None False))\<lparr> occlusionThreshold := 5000 \<rparr> \<rparr>)))))
      = Some 10000
   \<and> \<not> destroyed (state (run [OcclusionTick 1 5 0 10000 10000, OcclusionTick 1 5 0 14000 14000]
        (fire (CameraGranted 1) (init ''f'' ''/d'' ''/h'' False
          ((boot 0 True None False)
             \<lparr> config := (config (boot 0 True None False))\<lparr> occlusionThreshold := 5000 \<rparr> \<rparr>)))))"
  by (simp add: entry_defs handler_defs isBlocked_def runStart_def Let_def)

text \<open>
  What the callback does inside its window, and on a clear frame.
\<close>

lemma occlusion_warning_below_3000:
  assumes "\<not> destroyed (state p)" and "isBlocked m var"
    and "1000 < t - runStart (occlusionStart (state p)) t0"
    and "t - runStart (occlusionStart (state p)) t0 < 3000"
    and "t - runStart (occlusionStart (state p)) t0 \<le> occlusionThreshold (config p)"
  shows "trace (occlusionCheck v m var t0 t p)
           = trace p @ [DrawImage v, SetBodyBorder ''5px solid red'']
             @ (if camView p
                then [SetCamView ''red'' (''L: '' @ show_int (math_round m) @ '' V: ''
                                          @ show_int (math_round var))]
                else [])"
    and "\<not> destroyed (state (occlusionCheck v m var t0 t p))"
  using assms by (simp_all add: occlusionCheck_def emit_def Let_def)

lemma occlusion_clear_frame:
  assumes "\<not> destroyed (state p)" and "\<not> isBlocked m var"
  shows "trace (occlusionCheck v m var t0 t p)
           = trace p @ [DrawImage v, SetBodyBorder ''none'']
             @ (if camView p
                then [SetCamView ''green'' (''L: '' @ show_int (math_round m) @ '' V: ''
                                            @ show_int (math_round var))]
                else [])"
    and "occlusionStart (state (occlusionCheck v m var t0 t p)) = None"
  using assms by (simp_all add: occlusionCheck_def emit_def Let_def)

subsection \<open>Idle timeout\<close>

text \<open>
  Claim C7, as stated, fails while the page is not monitoring or is submitting. After
  \<^verbatim>\<open>init\<close> with the camera request still pending the idle check is registered, and a run of
  it 7000 ms after the last activity, beyond the timeout of 6000 ms, leaves the page as it
  is and writes no lockdown; the same holds on a monitoring page once a form was submitted.
\<close>

theorem idle_tick_before_consent_counterexample:
  "(IdleCheck, 1000) \<in> set (intervals (init ''f'' ''/d'' ''/h'' False (boot 0 True None False)))
   \<and> \<not> disableIdle (config (init ''f'' ''/d'' ''/h'' False (boot 0 True None False)))
   \<and> idleTimeout (config (init ''f'' ''/d'' ''/h'' False (boot 0 True None False))) = 6000
   \<and> lastActivity (state (init ''f'' ''/d'' ''/h'' False (boot 0 True None False))) = 0
   \<and> fire (IdleTick 7000) (init ''f'' ''/d'' ''/h'' False (boot 0 True None False))
       = init ''f'' ''/d'' ''/h'' False (boot 0 True None False)
   \<and> revocations (trace (fire (IdleTick 7000)
        (init ''f'' ''/d'' ''/h'' False (boot 0 True None False)))) = []
   \<and> \<not> destroyed (state (fire (IdleTick 7000)
        (init ''f'' ''/d'' ''/h'' False (boot 0 True None False))))
   \<and> \<not> destroyed (state (fire (IdleTick 7000) (fire Submit (fire (CameraGranted 1)
        (init ''f'' ''/d'' ''/h'' False (boot 0 True None False))))))
   \<and> revocations (trace (fire (IdleTick 7000) (fire Submit (fire (CameraGranted 1)
        (init ''f'' ''/d'' ''/h'' False (boot 0 True None False)))))) = []"
  by (simp add: entry_defs handler_defs triggerDestruction_def Let_def)

text \<open>
  Claim C7, amended. \<^verbatim>\<open>init\<close> without \<open>disableIdle\<close> registers the idle check with a period
  of 1000 ms. A run of the check hands the page to \<^verbatim>\<open>triggerDestruction\<close> with the idle
  reason when the time since \<open>lastActivity\<close> exceeds \<open>idleTimeout\<close>: this revokes a page that
  is monitoring, not destroyed and not submitting, and leaves a page that is destroyed, not
  yet monitoring or submitting as it is. A run within the timeout leaves the page as it is.
  A mouse move, a mouse press and a key press store their clock reading in \<open>lastActivity\<close>,
  and however long a sequence of activity and checks is, no check that comes within the
  timeout of the activity before it changes anything. After \<^verbatim>\<open>init\<close> with \<open>disableIdle\<close>
  no sequence of events registers the check or writes a lockdown with the idle reason.
\<close>

theorem idle_timeout_escalation:
  "(IdleCheck, 1000) \<in> set (intervals (init fid durl hurl False (boot now0 sb csrf cv)))
   \<and> ((IdleCheck, 1000) \<in> set (intervals p) \<longrightarrow>
        (now - lastActivity (state p) > idleTimeout (config p) \<longrightarrow>
           fire (IdleTick now) p = triggerDestruction ''Idle Timeout (6s)'' p
         \<and> (monitoringActive (state p) \<and> \<not> destroyed (state p) \<and> \<not> submitting (state p) \<longrightarrow>
              destroyed (state (fire (IdleTick now) p))
            \<and> trace (fire (IdleTick now) p) = trace p @ revocation p ''Idle Timeout (6s)''))
      \<and> (now - lastActivity (state p) \<le> idleTimeout (config p) \<longrightarrow> fire (IdleTick now) p = p))
   \<and> (destroyed (state p) \<or> \<not> monitoringActive (state p) \<or> submitting (state p) \<longrightarrow>
        fire (IdleTick now) p = p)
   \<and> (listening p \<longrightarrow>
        lastActivity (state (fire (MouseMove now) p)) = now
      \<and> lastActivity (state (fire (MouseDown now) p)) = now
      \<and> lastActivity (state (fire (KeyDown e now) p)) = now)
   \<and> (listening p \<and> (\<forall>(a, b) \<in> set xs. b - a \<le> idleTimeout (config p)) \<longrightarrow>
        trace (run (concat (map (\<lambda>(a, b). [MouseMove a, IdleTick b]) xs)) p) = trace p
      \<and> destroyed (state (run (concat (map (\<lambda>(a, b). [MouseMove a, IdleTick b]) xs)) p))
          = destroyed (state p))
   \<and> ''Idle Timeout (6s)''
        \<notin> set (revocations (trace (run evs (init fid durl hurl True (boot now0 sb csrf cv)))))
   \<and> (IdleCheck, 1000) \<notin> set (intervals (run evs (init fid durl hurl True (boot now0 sb csrf cv))))"
proof (intro conjI impI)
  show "(IdleCheck, 1000) \<in> set (intervals (init fid durl hurl False (boot now0 sb csrf cv)))"
    by (simp add: entry_defs initCamera_def emit_def)
next
  assume "(IdleCheck, 1000) \<in> set (intervals p)"
    and "now - lastActivity (state p) > idleTimeout (config p)"
  then show f: "fire (IdleTick now) p = triggerDestruction ''Idle Timeout (6s)'' p"
    by (simp add: idleCheck_def)
  assume "monitoringActive (state p) \<and> \<not> destroyed (state p) \<and> \<not> submitting (state p)"
  with f show "destroyed (state (fire (IdleTick now) p))"
    and "trace (fire (IdleTick now) p) = trace p @ revocation p ''Idle Timeout (6s)''"
    by (simp_all add: triggerDestruction_destroyed triggerDestruction_trace)
next
  assume "(IdleCheck, 1000) \<in> set (intervals p)"
    and "now - lastActivity (state p) \<le> idleTimeout (config p)"
  then show "fire (IdleTick now) p = p" by (simp add: idleCheck_def)
next
  assume "destroyed (state p) \<or> \<not> monitoringActive (state p) \<or> submitting (state p)"
  then have "triggerDestruction ''Idle Timeout (6s)'' p = p" by (rule triggerDestruction_guard)
  then show "fire (IdleTick now) p = p" by (simp add: idleCheck_def)
next
  assume "listening p"
  then show "lastActivity (state (fire (MouseMove now) p)) = now"
    and "lastActivity (state (fire (MouseDown now) p)) = now"
    and "lastActivity (state (fire (KeyDown e now) p)) = now"
    by (simp_all add: resetIdle_def onKeyDown_def Let_def)
next
  assume a: "listening p \<and> (\<forall>(a, b) \<in> set xs. b - a \<le> idleTimeout (config p))"
  then have "run (concat (map (\<lambda>(a, b). [MouseMove a, IdleTick b]) xs)) p
     = (if xs = [] then p else resetIdle (fst (last xs)) p)"
    by (intro activity_postpones) simp_all
  then show "trace (run (concat (map (\<lambda>(a, b). [MouseMove a, IdleTick b]) xs)) p) = trace p"
    and "destroyed (state (run (concat (map (\<lambda>(a, b). [MouseMove a, IdleTick b]) xs)) p))
          = destroyed (state p)"
    by (simp_all add: resetIdle_def)
next
  let ?I = "init fid durl hurl True (boot now0 sb csrf cv)"
  have "(IdleCheck, 1000) \<notin> set (intervals ?I)"
    and "''Idle Timeout (6s)'' \<notin> set (revocations (trace ?I))"
    by (simp_all add: entry_defs initCamera_def emit_def)
  from no_idle_run [OF this, of evs]
  show "''Idle Timeout (6s)'' \<notin> set (revocations (trace (run evs ?I)))"
    and "(IdleCheck, 1000) \<notin> set (intervals (run evs ?I))"
    by simp_all
qed

theorem idle_timeout_escalation_witness:
  "destroyed (state (fire (IdleTick 6001)
      (fire (CameraGranted 1) (init ''f'' ''/d'' ''/h'' False (boot 0 True None False)))))
   \<and> fire (IdleTick 6000)
        (fire (CameraGranted 1) (init ''f'' ''/d'' ''/h'' False (boot 0 True None False)))
      = fire (CameraGranted 1) (init ''f'' ''/d'' ''/h'' False (boot 0 True None False))
   \<and> \<not> destroyed (state (run [MouseMove 1000, IdleTick 6500, MouseMove 6000, IdleTick 12000]
        (fire (CameraGranted 1) (init ''f'' ''/d'' ''/h'' False (boot 0 True None False)))))
   \<and> fire (IdleTick 7000) (init ''f'' ''/d'' ''/h'' False (boot 0 True None False))
      = init ''f'' ''/d'' ''/h'' False (boot 0 True None False)"
proof -
  define G where "G = fire (CameraGranted 1) (init ''f'' ''/d'' ''/h'' False (boot 0 True None False))"
  define I where "I = init ''f'' ''/d'' ''/h'' False (boot 0 True None False)"
  have g: "(IdleCheck, 1000) \<in> set (intervals G)" "lastActivity (state G) = 0"
    "idleTimeout (config G) = 6000" "monitoringActive (state G)" "\<not> destroyed (state G)"
    "\<not> submitting (state G)" "listening G"
    by (simp_all add: G_def entry_defs initCamera_def cameraGranted_def emit_def)
  have i: "\<not> monitoringActive (state I)"
    by (simp add: I_def entry_defs initCamera_def emit_def)
  note t = idle_timeout_escalation [where p = G and fid = "''f''" and durl = "''/d''"
      and hurl = "''/h''" and ?now0.0 = 0 and sb = True and csrf = None and cv = False
      and e = "\<lparr> key = ''a'', ctrlKey = False, shiftKey = False, metaKey = False \<rparr>"
      and evs = "[]"]
  from g t [where now = 6001 and xs = "[]"]
  have 1: "destroyed (state (fire (IdleTick 6001) G))" by auto
  from g t [where now = 6000 and xs = "[]"]
  have 2: "fire (IdleTick 6000) G = G" by simp
  from g t [where now = 0 and xs = "[(1000, 6500), (6000, 12000)]"]
  have 3: "\<not> destroyed (state (run [MouseMove 1000, IdleTick 6500, MouseMove 6000,
      IdleTick 12000] G))"
    by simp
  from i idle_timeout_escalation [where p = I and now = 7000]
  have 4: "fire (IdleTick 7000) I = I" by blast
  from 1 2 3 4 show ?thesis unfolding G_def I_def by blast
qed

subsection \<open>Deliveries and redirect\<close>

text \<open>
  Claim C8, as stated, fails in a browser without \<^verbatim>\<open>navigator.sendBeacon\<close>: line 97 tests
  for it, and the revocation sequence then sends the request alone.
\<close>

theorem revocation_without_beacon_counterexample:
  "\<not> sendBeacon (fire (CameraGranted 1) (init ''f'' ''/d'' ''/h'' False (boot 0 False None False)))
   \<and> destroyed (state (fire Copy
        (fire (CameraGranted 1) (init ''f'' ''/d'' ''/h'' False (boot 0 False None False)))))
   \<and> trace (fire Copy
        (fire (CameraGranted 1) (init ''f'' ''/d'' ''/h'' False (boot 0 False None False))))
      = [GetUserMedia, PlayVideo 1, PreventDefault, SetBodyBorder ''5px solid red'', StopTracks 1,
         LockdownUI ''Clipboard Copy'',
         Fetch (Some ''/d'')
           [(''Content-Type'', Some ''application/json''), (''X-CSRFToken'', None)]
           [(''reason'', JStr ''Clipboard Copy'')] True]"
  by (simp add: entry_defs handler_defs triggerDestruction_def revocation_def Let_def)

text \<open>
  Claim C8, amended. A revocation sends the keepalive request with the CSRF token to the
  revocation endpoint, after the beacon when \<^verbatim>\<open>navigator.sendBeacon\<close> exists; once the
  request has settled, fulfilled or rejected, the timeout it arms replaces the location by
  the configured home URL.
\<close>

theorem revocation_deliveries_and_redirect:
  "\<not> destroyed (state p) \<and> monitoringActive (state p) \<and> \<not> submitting (state p) \<longrightarrow>
     trace (triggerDestruction reason p)
       = trace p @ [SetBodyBorder ''5px solid red'']
         @ (case cameraStream (state p) of None \<Rightarrow> [] | Some s \<Rightarrow> [StopTracks s])
         @ [LockdownUI reason]
         @ (if sendBeacon p
            then [SendBeacon (destroyUrl (config p)) [(''reason'', JStr reason)]] else [])
         @ [Fetch (destroyUrl (config p))
              [(''Content-Type'', Some ''application/json''), (''X-CSRFToken'', csrfMeta p)]
              [(''reason'', JStr reason)] True]
   \<and> trace (fire (DestroyFetchSettled ok) (triggerDestruction reason p))
       = trace (triggerDestruction reason p)
   \<and> trace (fire RedirectTimeout (fire (DestroyFetchSettled ok) (triggerDestruction reason p)))
       = trace (triggerDestruction reason p) @ [LocationReplace (homeUrl (config p))]"
  by (simp add: triggerDestruction_def revocation_def destroyFetchSettled_def redirect_def
      emit_def)

theorem revocation_deliveries_and_redirect_witness:
  "trace (fire RedirectTimeout (fire (DestroyFetchSettled False)
      (triggerDestruction ''Clipboard Copy''
        (fire (CameraGranted 1) (init ''f'' ''/d'' ''/h'' False (boot 0 True None False))))))
     = trace (triggerDestruction ''Clipboard Copy''
        (fire (CameraGranted 1) (init ''f'' ''/d'' ''/h'' False (boot 0 True None False))))
       @ [LocationReplace (Some ''/h'')]"
proof -
  let ?G = "fire (CameraGranted 1) (init ''f'' ''/d'' ''/h'' False (boot 0 True None False))"
  have g: "\<not> destroyed (state ?G)" "monitoringActive (state ?G)" "\<not> submitting (state ?G)"
    "homeUrl (config ?G) = Some ''/h''"
    by (simp_all add: entry_defs initCamera_def cameraGranted_def emit_def)
  from g revocation_deliveries_and_redirect [of ?G "''Clipboard Copy''" False]
  show ?thesis by simp
qed

subsection \<open>The terminal state\<close>

text \<open>
  Claim C9. On a destroyed page the idle check and the sampling callback leave the page
  as it is, and so do \<^verbatim>\<open>sendAlert\<close> and \<^verbatim>\<open>triggerDestruction\<close>. The page stays destroyed
  over every sequence of events and no further lockdown is written. An event only appends
  to the trace, and what it appends is no frame read, no track stop, no lockdown and no
  beacon or request.
\<close>

theorem destroyed_is_terminal:
  "destroyed (state p) \<longrightarrow>
     fire (IdleTick now) p = p
   \<and> fire (OcclusionTick v m var t0 t) p = p
   \<and> sendAlert type reason p = p
   \<and> triggerDestruction reason p = p
   \<and> destroyed (state (run evs p))
   \<and> revocations (trace (run evs p)) = revocations (trace p)
   \<and> take (length (trace p)) (trace (fire ev p)) = trace p
   \<and> (\<forall>e \<in> set (drop (length (trace p)) (trace (fire ev p))).
         e = PreventDefault \<or> e = GetUserMedia \<or> (\<exists>s. e = PlayVideo s)
         \<or> (\<exists>u. e = LocationReplace u))"
proof (intro impI conjI)
  assume d: "destroyed (state p)"
  then show "fire (IdleTick now) p = p"
    by (simp add: idleCheck_def triggerDestruction_guard)
  from d show "fire (OcclusionTick v m var t0 t) p = p" by (simp add: occlusionCheck_def)
  from d show "sendAlert type reason p = p" by (simp add: sendAlert_def)
  from d show "triggerDestruction reason p = p" by (simp add: triggerDestruction_guard)
  from d show "destroyed (state (run evs p))" by (rule destroyed_run)
  from d show "revocations (trace (run evs p)) = revocations (trace p)"
    by (rule destroyed_run_revocations)
  from d show "take (length (trace p)) (trace (fire ev p)) = trace p"
    by (rule destroyed_fire_quiet(1))
  from d show "\<forall>e \<in> set (drop (length (trace p)) (trace (fire ev p))).
         e = PreventDefault \<or> e = GetUserMedia \<or> (\<exists>s. e = PlayVideo s)
         \<or> (\<exists>u. e = LocationReplace u)"
    by (rule destroyed_fire_quiet(2))
qed

theorem destroyed_is_terminal_witness:
  "fire (OcclusionTick 1 5 0 20000 20000)
      (fire Copy (fire (CameraGranted 1) (init ''f'' ''/d'' ''/h'' False (boot 0 True None False))))
     = fire Copy (fire (CameraGranted 1) (init ''f'' ''/d'' ''/h'' False (boot 0 True None False)))
   \<and> revocations (trace (run [Blur, IdleTick 9000, KeyUp ''PrintScreen'']
        (fire Copy (fire (CameraGranted 1)
          (init ''f'' ''/d'' ''/h'' False (boot 0 True None False))))))
      = revocations (trace (fire Copy (fire (CameraGranted 1)
          (init ''f'' ''/d'' ''/h'' False (boot 0 True None False)))))"
proof -
  let ?D = "fire Copy (fire (CameraGranted 1)
    (init ''f'' ''/d'' ''/h'' False (boot 0 True None False)))"
  have d: "destroyed (state ?D)"
    by (simp add: entry_defs initCamera_def cameraGranted_def emit_def onCopy_def
        triggerDestruction_def)
  from d destroyed_is_terminal [of ?D _ 1 5 0 20000 20000]
  have 1: "fire (OcclusionTick 1 5 0 20000 20000) ?D = ?D" by blast
  from d destroyed_is_terminal [where p = ?D and evs = "[Blur, IdleTick 9000, KeyUp ''PrintScreen'']"]
  have 2: "revocations (trace (run [Blur, IdleTick 9000, KeyUp ''PrintScreen''] ?D))
      = revocations (trace ?D)" by blast
  from 1 2 show ?thesis by blast
qed

subsection \<open>The verification page before consent\<close>

text \<open>
  Claim C10. \<^verbatim>\<open>initVerification\<close> registers no interval and requests no camera. As long as
  \<^verbatim>\<open>initCamera\<close> is not called from outside, whatever the events, \<open>monitoringActive\<close> stays
  unset and no camera is requested. Once it has been called, \<open>monitoringActive\<close> still stays
  unset as long as no request is granted, be it pending or failed. And over every sequence
  of events after which \<open>monitoringActive\<close> is unset, no interval is registered, no lockdown
  is written, the page is not destroyed, and a call of \<^verbatim>\<open>triggerDestruction\<close> with any reason
  leaves the page as it is.
\<close>

theorem verification_grace_period:
  "intervals (initVerification fid durl hurl (boot now sb csrf cv)) = []
   \<and> pending (initVerification fid durl hurl (boot now sb csrf cv)) = []
   \<and> trace (initVerification fid durl hurl (boot now sb csrf cv)) = []
   \<and> (StartCamera \<notin> set evs \<longrightarrow>
        \<not> monitoringActive (state (run evs (initVerification fid durl hurl (boot now sb csrf cv))))
      \<and> GetUserMedia \<notin> set (trace (run evs (initVerification fid durl hurl (boot now sb csrf cv)))))
   \<and> ((\<forall>s. CameraGranted s \<notin> set evs) \<longrightarrow>
        \<not> monitoringActive (state (run evs (initVerification fid durl hurl (boot now sb csrf cv)))))
   \<and> (\<not> monitoringActive (state (run evs (initVerification fid durl hurl (boot now sb csrf cv))))
       \<longrightarrow>
        intervals (run evs (initVerification fid durl hurl (boot now sb csrf cv))) = []
      \<and> revocations (trace (run evs (initVerification fid durl hurl (boot now sb csrf cv)))) = []
      \<and> \<not> destroyed (state (run evs (initVerification fid durl hurl (boot now sb csrf cv))))
      \<and> triggerDestruction reason (run evs (initVerification fid durl hurl (boot now sb csrf cv)))
          = run evs (initVerification fid durl hurl (boot now sb csrf cv)))"
proof (intro conjI impI)
  let ?V = "initVerification fid durl hurl (boot now sb csrf cv)"
  show "intervals ?V = []" "pending ?V = []" "trace ?V = []"
    by (simp_all add: entry_defs)
  have v: "\<not> monitoringActive (state ?V)" "CameraRequest \<notin> set (pending ?V)"
    "GetUserMedia \<notin> set (trace ?V)"
    by (simp_all add: entry_defs)
  {
    assume "StartCamera \<notin> set evs"
    from grace_run [OF this v]
    show "\<not> monitoringActive (state (run evs ?V))"
      and "GetUserMedia \<notin> set (trace (run evs ?V))"
      by simp_all
  }
  {
    assume "\<forall>s. CameraGranted s \<notin> set evs"
    then show "\<not> monitoringActive (state (run evs ?V))" using v(1) by (rule no_grant_run)
  }
  assume n: "\<not> monitoringActive (state (run evs ?V))"
  note r = inactive_run [OF n]
  from r show "intervals (run evs ?V) = []" by (simp add: entry_defs)
  from r show "revocations (trace (run evs ?V)) = []" by (simp add: entry_defs)
  from r show "\<not> destroyed (state (run evs ?V))" by (simp add: entry_defs)
  from n show "triggerDestruction reason (run evs ?V) = run evs ?V"
    by (simp add: triggerDestruction_guard)
qed

theorem verification_grace_period_witness:
  "\<not> monitoringActive (state (run [KeyDown \<lparr> key = ''F12'', ctrlKey = False, shiftKey = False,
        metaKey = False \<rparr> 100, Copy, KeyUp ''PrintScreen'', IdleTick 99000]
      (initVerification ''f'' ''/d'' ''/h'' (boot 0 True None False))))
   \<and> revocations (trace (run [StartCamera, Copy, CameraFailed ''denied'', KeyUp ''PrintScreen'',
        KeyDown \<lparr> key = ''F12'', ctrlKey = False, shiftKey = False, metaKey = False \<rparr> 100]
      (initVerification ''f'' ''/d'' ''/h'' (boot 0 True None False)))) = []
   \<and> \<not> destroyed (state (run [StartCamera, Copy, CameraFailed ''denied'', KeyUp ''PrintScreen'',
        KeyDown \<lparr> key = ''F12'', ctrlKey = False, shiftKey = False, metaKey = False \<rparr> 100]
      (initVerification ''f'' ''/d'' ''/h'' (boot 0 True None False))))"
proof -
  define V where "V = initVerification ''f'' ''/d'' ''/h'' (boot 0 True None False)"
  define k where "k = \<lparr> key = ''F12'', ctrlKey = False, shiftKey = False, metaKey = False \<rparr>"
  define es1 where "es1 = [KeyDown k 100, Copy, KeyUp ''PrintScreen'', IdleTick 99000]"
  define es2 where
    "es2 = [StartCamera, Copy, CameraFailed ''denied'', KeyUp ''PrintScreen'', KeyDown k 100]"
  have a: "StartCamera \<notin> set es1" by (simp add: es1_def)
  have b: "\<forall>s. CameraGranted s \<notin> set es2" by (simp add: es2_def)
  note t1 = verification_grace_period [where evs = es1 and fid = "''f''" and durl = "''/d''"
      and hurl = "''/h''" and now = 0 and sb = True and csrf = None and cv = False
      and reason = "''Clipboard Copy''"]
  note t2 = verification_grace_period [where evs = es2 and fid = "''f''" and durl = "''/d''"
      and hurl = "''/h''" and now = 0 and sb = True and csrf = None and cv = False
      and reason = "''Clipboard Copy''"]
  from a t1 have 1: "\<not> monitoringActive (state (run es1 V))" unfolding V_def by blast
  from b t2 have n: "\<not> monitoringActive (state (run es2 V))" unfolding V_def by blast
  from n t2 have 2: "revocations (trace (run es2 V)) = []" unfolding V_def by blast
  from n t2 have 3: "\<not> destroyed (state (run es2 V))" unfolding V_def by blast
  from 1 2 3 show ?thesis unfolding V_def es1_def es2_def k_def by blast
qed

end
